theory Spec2Isabelle
  imports
    Complex_Main
    "HOL-Library.Sublist"
    "HOL-Library.Multiset"
    "HOL-Library.Char_ord"
    "HOL-Library.List_Lexorder"
begin

section \<open>Strings\<close>

text \<open>
  Python strings are modelled as \<^typ>\<open>string\<close>, one \<^typ>\<open>char\<close> per code point, for
  text whose code points lie below 256.  \<open>of_char\<close> reads the code point.  An absent
  value (\<open>None\<close>, or the \<open>NaN\<close> pandas puts in an empty cell) is \<open>None\<close> of an option type.
\<close>

definition is_space :: "char \<Rightarrow> bool" where
  \<comment> \<open>the characters \<open>\s\<close> matches and \<open>str.strip()\<close> removes\<close>
  "is_space c = ((of_char c :: nat) \<in> {9, 10, 11, 12, 13, 28, 29, 30, 31, 32, 133, 160})"

definition lower_char :: "char \<Rightarrow> char" where
  "lower_char c =
     (let n = (of_char c :: nat)
      in if (65 \<le> n \<and> n \<le> 90) \<or> (192 \<le> n \<and> n \<le> 222 \<and> n \<noteq> 215)
         then char_of (n + 32) else c)"

definition lower :: "string \<Rightarrow> string" where
  \<comment> \<open>\<open>str.lower()\<close>\<close>
  "lower s = map lower_char s"

definition strip :: "string \<Rightarrow> string" where
  \<comment> \<open>\<open>str.strip()\<close>: leading and trailing whitespace removed\<close>
  "strip s = rev (dropWhile is_space (rev (dropWhile is_space s)))"

definition contains :: "string \<Rightarrow> string \<Rightarrow> bool" where
  \<comment> \<open>\<open>contains text pat\<close> is Python's \<open>pat in text\<close>\<close>
  "contains text pat = sublist pat text"

section \<open>The text normalizer (\<open>Geocoding/gecoding-base.py\<close>)\<close>

text \<open>
  \<open>re.sub(r"\(.*?\)", "", text)\<close>.  At an opening bracket the lazy \<open>.*?\<close> runs to the
  first closing bracket; \<open>.\<close> does not match a line feed, so the match fails when a line
  feed comes first, and the opening bracket is then kept.  \<open>close_paren\<close> returns what
  follows the match.
\<close>

fun close_paren :: "string \<Rightarrow> string option" where
  "close_paren [] = None"
| "close_paren (c # cs) =
     (if c = CHR '')'' then Some cs
      else if c = CHR 0x0A then None
      else close_paren cs)"

function remove_brackets :: "string \<Rightarrow> string" where
  "remove_brackets [] = []"
| "remove_brackets (c # cs) =
     (if c = CHR ''(''
      then (case close_paren cs of
              Some r \<Rightarrow> remove_brackets r
            | None \<Rightarrow> c # remove_brackets cs)
      else c # remove_brackets cs)"
  by pat_completeness auto
termination
proof (relation "measure length")
  fix c :: char and cs r :: string
  assume "close_paren cs = Some r"
  then have "length r \<le> length cs"
    by (induction cs) (auto split: if_splits)
  then show "(r, c # cs) \<in> measure length"
    by simp
qed auto

definition split_hybrids :: "string \<Rightarrow> string" where
  \<comment> \<open>\<open>re.sub(r"[-/]", " ", text)\<close>\<close>
  "split_hybrids s = map (\<lambda>c. if c = CHR ''-'' \<or> c = CHR ''/'' then CHR '' '' else c) s"

function collapse_ws :: "string \<Rightarrow> string" where
  \<comment> \<open>\<open>re.sub(r"\s+", " ", text)\<close>\<close>
  "collapse_ws [] = []"
| "collapse_ws (c # cs) =
     (if is_space c then CHR '' '' # collapse_ws (dropWhile is_space cs)
      else c # collapse_ws cs)"
  by pat_completeness auto
termination
  by (relation "measure length") (auto intro: le_imp_less_Suc length_dropWhile_le)

definition normalize_str :: "string \<Rightarrow> string" where
  "normalize_str text = strip (collapse_ws (split_hybrids (remove_brackets (lower text))))"

definition normalize_text :: "string option \<Rightarrow> string" where
  "normalize_text text = (case text of None \<Rightarrow> [] | Some s \<Rightarrow> normalize_str s)"

section \<open>The geocoding service and the cache\<close>

text \<open>
  The program calls the service through a rate-limited callable.  One call of the
  callable either returns no result, returns a location, or raises.  Its answer may
  depend on the calls made before, so a callable is a function of the log of earlier
  queries and the query.  The state of a run is the cache dictionary and the log of the
  queries sent out.
\<close>

datatype reply = NoResult | Found real real | Raises

datatype error = GeocodeError | TypeError

type_synonym coords = "real option \<times> real option"

type_synonym service = "string list \<Rightarrow> string \<Rightarrow> reply"

record geo_state =
  cache :: "string \<rightharpoonup> coords"
  calls :: "string list"

definition empty_state :: geo_state where
  "empty_state = \<lparr>cache = Map.empty, calls = []\<rparr>"

text \<open>
  Both scripts reach the service through geopy's wrapper:
  \<open>geocode = RateLimiter(geolocator.geocode, min_delay_seconds=0.5)\<close> in ladder mode and
  \<open>geocode_service = RateLimiter(geolocator.geocode, min_delay_seconds=1.0)\<close> in
  single-query mode.  With the wrapper's defaults (\<open>max_retries=2\<close>,
  \<open>swallow_exceptions=True\<close>, \<open>return_value_on_exception=None\<close>) an exception of the
  service makes the wrapper call the service again, and when the last try raises too the
  wrapper returns \<open>None\<close>.  The wrapped function \<open>func\<close> gives the service's reply to
  the \<open>i\<close>-th try of a query; \<open>Raises\<close> there is an exception of the service.  The
  wrapped callable never raises on account of the service.  The delay between calls is
  not modelled.
\<close>

definition max_retries :: nat where
  "max_retries = 2"

fun retry_call :: "(nat \<Rightarrow> reply) \<Rightarrow> nat \<Rightarrow> nat \<Rightarrow> reply" where
  "retry_call func i 0 = (case func i of Raises \<Rightarrow> NoResult | r \<Rightarrow> r)"
| "retry_call func i (Suc left) =
     (case func i of Raises \<Rightarrow> retry_call func (Suc i) left | r \<Rightarrow> r)"

definition RateLimiter :: "(string list \<Rightarrow> string \<Rightarrow> nat \<Rightarrow> reply) \<Rightarrow> service" where
  "RateLimiter func hist q = retry_call (func hist q) 0 max_retries"

section \<open>Ladder mode (\<open>Geocoding/gecoding-base.py\<close>)\<close>

record row =
  row_place :: "string option"
  row_range :: "string option"
  row_district :: "string option"

definition generate_queries :: "row \<Rightarrow> string list" where
  "generate_queries r =
     (let place = normalize_text (row_place r);
          range' = normalize_text (row_range r);
          district = normalize_text (row_district r)
      in [place @ '', '' @ range' @ '', '' @ district @ '', Kerala, India'',
          place @ '', '' @ district @ '', Kerala, India'',
          place @ '', Kerala, India'',
          range' @ '', '' @ district @ '', Kerala, India'',
          district @ '', Kerala, India''])"

text \<open>
  The \<open>for q in queries\<close> loop of \<open>geocode_row\<close>.  The function has no handler, so an
  exception of the \<open>geocode\<close> call leaves it (\<open>Inl\<close>).
\<close>

fun geocode_loop :: "service \<Rightarrow> string list \<Rightarrow> geo_state \<Rightarrow> (error + coords) \<times> geo_state" where
  "geocode_loop geocode [] st = (Inr (None, None), st)"
| "geocode_loop geocode (q # qs) st =
     (if strip q = [] then geocode_loop geocode qs st
      else case cache st q of
        Some (lat, lon) \<Rightarrow>
          (if lat \<noteq> None then (Inr (lat, lon), st) else geocode_loop geocode qs st)
      | None \<Rightarrow>
          (case geocode (calls st) q of
             Found lat lon \<Rightarrow>
               (Inr (Some lat, Some lon),
                st\<lparr>cache := (cache st)(q \<mapsto> (Some lat, Some lon)), calls := calls st @ [q]\<rparr>)
           | NoResult \<Rightarrow>
               geocode_loop geocode qs
                 (st\<lparr>cache := (cache st)(q \<mapsto> (None, None)), calls := calls st @ [q]\<rparr>)
           | Raises \<Rightarrow> (Inl GeocodeError, st\<lparr>calls := calls st @ [q]\<rparr>)))"

definition geocode_row :: "service \<Rightarrow> row \<Rightarrow> geo_state \<Rightarrow> (error + coords) \<times> geo_state" where
  "geocode_row geocode r st = geocode_loop geocode (generate_queries r) st"

text \<open>The list comprehension over the rows of the table: it stops at the first exception.\<close>

fun geocode_rows :: "service \<Rightarrow> row list \<Rightarrow> geo_state \<Rightarrow> (error + coords list) \<times> geo_state" where
  "geocode_rows geocode [] st = (Inr [], st)"
| "geocode_rows geocode (r # rs) st =
     (case geocode_row geocode r st of
        (Inl e, st') \<Rightarrow> (Inl e, st')
      | (Inr c, st') \<Rightarrow>
          (case geocode_rows geocode rs st' of
             (Inl e, st'') \<Rightarrow> (Inl e, st'')
           | (Inr cs, st'') \<Rightarrow> (Inr (c # cs), st'')))"

section \<open>Single-query mode (\<open>Validation Mining/webscraper-nomatim-english.py\<close>)\<close>

definition cache_key :: "string \<Rightarrow> string option \<Rightarrow> string" where
  \<comment> \<open>the f-string \<open>{location_name}_{district_hint}\<close>: \<open>None\<close> is formatted as the text None\<close>
  "cache_key location_name district_hint =
     location_name @ ''_'' @ (case district_hint of None \<Rightarrow> ''None'' | Some d \<Rightarrow> d)"

definition search_query :: "string \<Rightarrow> string option \<Rightarrow> string" where
  "search_query location_name district_hint =
     location_name @ '', '' @ (case district_hint of None \<Rightarrow> [] | Some d \<Rightarrow> d) @ '', Kerala''"

definition get_lat_lon :: "service \<Rightarrow> string option \<Rightarrow> string option \<Rightarrow> geo_state \<Rightarrow> coords \<times> geo_state" where
  "get_lat_lon geocode_service location_name district_hint st =
     (case location_name of
        None \<Rightarrow> ((None, None), st)
      | Some name \<Rightarrow>
          if name = [] then ((None, None), st)
          else
            let key = cache_key name district_hint in
            case cache st key of
              Some v \<Rightarrow> (v, st)
            | None \<Rightarrow>
                let search = search_query name district_hint;
                    st' = st\<lparr>calls := calls st @ [search]\<rparr>
                in case geocode_service (calls st) search of
                     Found lat lon \<Rightarrow>
                       if 8 < lat \<and> lat < 13
                       then ((Some lat, Some lon),
                             st'\<lparr>cache := (cache st)(key \<mapsto> (Some lat, Some lon))\<rparr>)
                       else ((None, None), st')
                   | NoResult \<Rightarrow> ((None, None), st')
                   | Raises \<Rightarrow> ((None, None), st'))"

text \<open>A run of requests \<open>(location_name, district_hint)\<close>, each served by \<open>get_lat_lon\<close>.\<close>

fun get_lat_lon_all :: "service \<Rightarrow> (string option \<times> string option) list \<Rightarrow> geo_state \<Rightarrow> coords list \<times> geo_state" where
  "get_lat_lon_all geocode_service [] st = ([], st)"
| "get_lat_lon_all geocode_service ((n, h) # rs) st =
     (case get_lat_lon geocode_service n h st of
        (c, st') \<Rightarrow> (case get_lat_lon_all geocode_service rs st' of (cs, st'') \<Rightarrow> (c # cs, st'')))"

section \<open>Location extraction\<close>

definition KERALA_DISTRICTS :: "string list" where
  "KERALA_DISTRICTS =
     [''Wayanad'', ''Idukki'', ''Palakkad'', ''Kannur'', ''Pathanamthitta'',
      ''Kollam'', ''Kottayam'', ''Thrissur'', ''Malappuram'', ''Kozhikode'', ''Kasargod'',
      ''Thiruvananthapuram'']"

definition ignore :: "string list" where
  "ignore =
     [''Kerala'', ''India'', ''State'', ''District'', ''Forest'', ''South'', ''North'',
      ''West'', ''East'', ''Wild'', ''News'']"

text \<open>
  The entity tagger \<open>nlp\<close> is outside the program: it is a parameter that gives the
  entities of a text as pairs of span text and label.  The order in which Python
  iterates over \<open>set(candidates)\<close> is a parameter too (\<open>set_iter\<close>).
  \<open>max(..., key=...)\<close> returns the first element with the greatest key.
\<close>

type_synonym tagger = "string \<Rightarrow> (string \<times> string) list"

fun max_by :: "('a \<Rightarrow> nat) \<Rightarrow> 'a list \<Rightarrow> 'a option" where
  "max_by key [] = None"
| "max_by key (x # xs) =
     (case max_by key xs of
        None \<Rightarrow> Some x
      | Some y \<Rightarrow> if key x < key y then Some y else Some x)"

definition extract_location_from_text ::
    "tagger \<Rightarrow> (string list \<Rightarrow> string list) \<Rightarrow> string \<Rightarrow> string option \<times> string option" where
  "extract_location_from_text nlp set_iter text =
     (if text = [] then (None, None)
      else
        let locs = map fst (filter (\<lambda>ent. snd ent = ''GPE'') (nlp text));
            candidates = filter (\<lambda>l. l \<notin> set ignore \<and> l \<notin> set KERALA_DISTRICTS) locs;
            district_context = find (\<lambda>dist. contains text dist) KERALA_DISTRICTS
        in if candidates \<noteq> []
           then (max_by (count_list candidates) (set_iter candidates), district_context)
           else (None, district_context))"

section \<open>Assembling the records\<close>

record raw_event =
  ev_text :: string
  ev_date :: string
  ev_source_type :: string
  ev_url :: string

record conflict_event =
  event_date :: string
  hex_id :: string
  latitude :: real
  longitude :: real
  location_name :: string
  district_context :: "string option"
  species :: string
  source_type :: string
  description :: string
  url :: string

definition identify_species :: "string \<Rightarrow> string" where
  "identify_species text =
     (let text_lower = lower text
      in if contains text_lower ''elephant'' then ''Elephant''
         else if contains text_lower ''tiger'' then ''Tiger''
         else if contains text_lower ''boar'' then ''Wild Boar''
         else if contains text_lower ''gaur'' \<or> contains text_lower ''bison'' then ''Gaur''
         else if contains text_lower ''leopard'' then ''Leopard''
         else ''Unknown'')"

text \<open>
  The body of the loop over \<open>all_events\<close>.  \<open>if loc\<close> holds for a non-empty string,
  \<open>if lat\<close> for a number other than zero.  The cell index \<open>h3.latlng_to_cell\<close> is a
  parameter; it raises a type error on an absent longitude.
\<close>

definition process_event ::
    "tagger \<Rightarrow> (string list \<Rightarrow> string list) \<Rightarrow> service \<Rightarrow> (real \<Rightarrow> real \<Rightarrow> string)
     \<Rightarrow> raw_event \<Rightarrow> conflict_event list \<times> geo_state
     \<Rightarrow> error + conflict_event list \<times> geo_state" where
  "process_event nlp set_iter geocode_service h3 event acc =
     (case acc of (final_data, st) \<Rightarrow>
      case extract_location_from_text nlp set_iter (ev_text event) of (loc, district) \<Rightarrow>
        (case loc of
           None \<Rightarrow> Inr (final_data, st)
         | Some name \<Rightarrow>
             if name = [] then Inr (final_data, st)
             else
               (case get_lat_lon geocode_service (Some name) district st of ((lat, lon), st') \<Rightarrow>
                  (case lat of
                     None \<Rightarrow> Inr (final_data, st')
                   | Some lat' \<Rightarrow>
                       if lat' = 0 then Inr (final_data, st')
                       else
                         (case lon of
                            None \<Rightarrow> Inl TypeError
                          | Some lon' \<Rightarrow>
                              Inr (final_data @
                                    [\<lparr>event_date = ev_date event,
                                      hex_id = h3 lat' lon',
                                      latitude = lat',
                                      longitude = lon',
                                      location_name = name,
                                      district_context = district,
                                      species = identify_species (ev_text event),
                                      source_type = ev_source_type event,
                                      description = take 100 (ev_text event),
                                      url = ev_url event\<rparr>],
                                   st'))))))"

fun process_events ::
    "tagger \<Rightarrow> (string list \<Rightarrow> string list) \<Rightarrow> service \<Rightarrow> (real \<Rightarrow> real \<Rightarrow> string)
     \<Rightarrow> raw_event list \<Rightarrow> conflict_event list \<times> geo_state
     \<Rightarrow> error + conflict_event list \<times> geo_state" where
  "process_events nlp set_iter geocode_service h3 [] acc = Inr acc"
| "process_events nlp set_iter geocode_service h3 (event # events) acc =
     (case process_event nlp set_iter geocode_service h3 event acc of
        Inl e \<Rightarrow> Inl e
      | Inr acc' \<Rightarrow> process_events nlp set_iter geocode_service h3 events acc')"

text \<open>
  The species scan in the words of the specification: an ordered table of keywords,
  searched without regard to case, the first entry with a keyword in the text wins.
\<close>

definition species_keywords :: "(string list \<times> string) list" where
  "species_keywords =
     [([''elephant''], ''Elephant''),
      ([''tiger''], ''Tiger''),
      ([''boar''], ''Wild Boar''),
      ([''gaur'', ''bison''], ''Gaur''),
      ([''leopard''], ''Leopard'')]"

definition contains_nocase :: "string \<Rightarrow> string \<Rightarrow> bool" where
  "contains_nocase text kw = sublist (lower kw) (lower text)"

definition species_scan :: "string \<Rightarrow> string" where
  "species_scan text =
     (case find (\<lambda>entry. list_ex (contains_nocase text) (fst entry)) species_keywords of
        Some entry \<Rightarrow> snd entry
      | None \<Rightarrow> ''Unknown'')"

section \<open>Sorting and saving\<close>

text \<open>
  \<open>df.sort_values(by='event_date', ascending=False)\<close> is a library call; \<open>save\<close> takes
  it as a parameter that may raise, and falls back to the records as they are.  Nothing
  is written when there is no record.  The dates are strings, compared code point by
  code point; \<open>sort_values_desc\<close> is the library's sort on such a column.
\<close>

definition save ::
    "(conflict_event list \<Rightarrow> error + conflict_event list) \<Rightarrow> conflict_event list
     \<Rightarrow> conflict_event list option" where
  "save sort_values final_data =
     (if final_data \<noteq> []
      then (case sort_values final_data of
              Inr df \<Rightarrow> Some df
            | Inl e \<Rightarrow> Some final_data)
      else None)"

definition sort_values_desc :: "conflict_event list \<Rightarrow> error + conflict_event list" where
  "sort_values_desc df = Inr (rev (sort_key event_date (rev df)))"

section \<open>Concrete services and inputs\<close>

definition svc_far :: service where
  \<comment> \<open>a service that places every query outside the region\<close>
  "svc_far hist q = Found 48 2"

definition svc_munnar :: service where
  "svc_munnar hist q = (if q = ''Munnar, Idukki, Kerala'' then Found 10 77 else Found 48 2)"

definition nlp_none :: tagger where
  \<comment> \<open>a tagger that finds no entity\<close>
  "nlp_none text = []"

definition spec_cache_key :: "string \<Rightarrow> string option \<Rightarrow> string" where
  \<comment> \<open>the key in the words of the specification: place, \<open>_\<close>, district or empty\<close>
  "spec_cache_key place district = place @ ''_'' @ (case district of None \<Rightarrow> [] | Some d \<Rightarrow> d)"

definition svc_none :: service where
  "svc_none hist q = NoResult"

definition st_munnar :: geo_state where
  "st_munnar = \<lparr>cache = [''Munnar_'' \<mapsto> (Some 10, Some 77)], calls = []\<rparr>"

definition row_abc :: row where
  "row_abc = \<lparr>row_place = Some ''a'', row_range = Some ''b'', row_district = Some ''c''\<rparr>"

definition svc_other :: service where
  "svc_other hist q = Found 11 77"

definition st_tier2 :: geo_state where
  "st_tier2 = \<lparr>cache = [''a, c, Kerala, India'' \<mapsto> (Some 10, Some 76)], calls = []\<rparr>"


definition st_tier1_neg :: geo_state where
  "st_tier1_neg =
     \<lparr>cache = [''a, c, Kerala, India'' \<mapsto> (Some 10, Some 76),
               ''a, b, c, Kerala, India'' \<mapsto> (None, None)],
      calls = []\<rparr>"

text \<open>
  Two shapes of strings used in the proofs about the normalizer: \<open>no_pair\<close> holds when no
  opening bracket is followed, anywhere later, by a closing one; \<open>collapsed\<close> holds when
  every whitespace character is a single space not followed by whitespace.
\<close>

fun no_pair :: "string \<Rightarrow> bool" where
  "no_pair [] = True"
| "no_pair (c # cs) = ((c = CHR ''('' \<longrightarrow> CHR '')'' \<notin> set cs) \<and> no_pair cs)"

fun collapsed :: "string \<Rightarrow> bool" where
  "collapsed [] = True"
| "collapsed (c # cs) =
     ((is_space c \<longrightarrow> c = CHR '' '' \<and> dropWhile is_space cs = cs) \<and> collapsed cs)"

text \<open>An event about an elephant near Mananthavady, and records that differ in their date.\<close>

definition nlp_demo :: tagger where
  "nlp_demo text = [(''Mananthavady'', ''GPE''), (''Wayanad'', ''GPE'')]"

definition svc_demo :: service where
  "svc_demo hist q = Found 11 76"

definition h3_demo :: "real \<Rightarrow> real \<Rightarrow> string" where
  "h3_demo lat lon = ''cell''"

definition event_demo :: raw_event where
  "event_demo = \<lparr>ev_text = ''Wild elephant attacks farm near Mananthavady in Wayanad'',
                  ev_date = ''2024-05-01'', ev_source_type = ''News/Blog'', ev_url = []\<rparr>"

definition rec_demo :: conflict_event where
  "rec_demo = \<lparr>event_date = ''2024-05-01'', hex_id = ''cell'', latitude = 11, longitude = 76,
                location_name = ''Mananthavady'', district_context = Some ''Wayanad'',
                species = ''Elephant'', source_type = ''News/Blog'',
                description = ''Wild elephant attacks farm near Mananthavady in Wayanad'',
                url = []\<rparr>"

definition st_demo :: geo_state where
  "st_demo = \<lparr>cache = [''Mananthavady_Wayanad'' \<mapsto> (Some 11, Some 76)],
              calls = [''Mananthavady, Wayanad, Kerala'']\<rparr>"

definition dated :: "string \<Rightarrow> conflict_event" where
  "dated d = rec_demo\<lparr>event_date := d\<rparr>"

definition sort_fails :: "conflict_event list \<Rightarrow> error + conflict_event list" where
  "sort_fails df = Inl TypeError"

definition mixed :: "conflict_event list" where
  "mixed = [dated ''2024-05-01'', dated ''Unknown'', dated ''2023-11-20'', dated ''2024-06-15'']"

section \<open>Single-query mode: bounds and the cache\<close>

text \<open>
  C3.  In single-query mode, when the service is asked (the place is not empty and the
  key is not in the cache) and answers with a latitude that is not strictly between 8
  and 13, \<open>get_lat_lon\<close> returns absent coordinates and leaves the cache as it was: the
  result is not stored.
\<close>

theorem get_lat_lon_out_of_bounds:
  assumes "name \<noteq> []"
    and "cache st (cache_key name hint) = None"
    and "svc (calls st) (search_query name hint) = Found lat lon"
    and "\<not> (8 < lat \<and> lat < 13)"
  shows "fst (get_lat_lon svc (Some name) hint st) = (None, None)
       \<and> cache (snd (get_lat_lon svc (Some name) hint st)) = cache st"
  using assms by (simp add: get_lat_lon_def Let_def)

theorem get_lat_lon_out_of_bounds_witness:
  "fst (get_lat_lon svc_far (Some ''Paris'') None empty_state) = (None, None)
   \<and> cache (snd (get_lat_lon svc_far (Some ''Paris'') None empty_state)) = cache empty_state"
  using get_lat_lon_out_of_bounds [of "''Paris''" empty_state None svc_far 48 2]
  by (simp add: svc_far_def empty_state_def)

lemma get_lat_lon_cache_ok:
  assumes "\<And>k v. cache st k = Some v \<Longrightarrow> (\<exists>lat lon. v = (Some lat, Some lon) \<and> 8 < lat \<and> lat < 13)"
    and "cache (snd (get_lat_lon svc n h st)) k = Some v"
  shows "\<exists>lat lon. v = (Some lat, Some lon) \<and> 8 < lat \<and> lat < 13"
  using assms
  by (auto simp: get_lat_lon_def Let_def split: option.splits if_splits reply.splits)

lemma get_lat_lon_all_cache_ok:
  assumes "\<And>k v. cache st k = Some v \<Longrightarrow> (\<exists>lat lon. v = (Some lat, Some lon) \<and> 8 < lat \<and> lat < 13)"
    and "cache (snd (get_lat_lon_all svc reqs st)) k = Some v"
  shows "\<exists>lat lon. v = (Some lat, Some lon) \<and> 8 < lat \<and> lat < 13"
  using assms
proof (induction reqs arbitrary: st)
  case Nil
  then show ?case by simp
next
  case (Cons r rs)
  obtain n h where r: "r = (n, h)" by (cases r)
  obtain c st' where s: "get_lat_lon svc n h st = (c, st')" by (cases "get_lat_lon svc n h st")
  have ok: "\<And>k v. cache st' k = Some v \<Longrightarrow> (\<exists>lat lon. v = (Some lat, Some lon) \<and> 8 < lat \<and> lat < 13)"
    using get_lat_lon_cache_ok [of st svc n h] Cons.prems(1) s by simp
  have "cache (snd (get_lat_lon_all svc rs st')) k = Some v"
    using Cons.prems(2) r s by (simp split: prod.splits)
  with Cons.IH [of st'] ok show ?case by blast
qed

text \<open>
  C10.  After any sequence of \<open>get_lat_lon\<close> calls that starts from the empty cache,
  every value stored in the cache is a pair of present coordinates whose latitude is
  strictly between 8 and 13.
\<close>

theorem location_cache_invariant:
  "cache (snd (get_lat_lon_all svc reqs empty_state)) k = Some v
   \<Longrightarrow> \<exists>lat lon. v = (Some lat, Some lon) \<and> 8 < lat \<and> lat < 13"
  by (rule get_lat_lon_all_cache_ok [of empty_state svc reqs k v]) (simp_all add: empty_state_def)

theorem location_cache_invariant_witness:
  "cache (snd (get_lat_lon_all svc_munnar
                 [(Some ''Paris'', None), (Some ''Munnar'', Some ''Idukki'')] empty_state))
     ''Munnar_Idukki'' = Some (Some 10, Some 77)
   \<and> (\<exists>lat lon. (Some 10, Some 77) = (Some lat, Some lon) \<and> (8::real) < lat \<and> lat < 13)"
proof -
  have h: "cache (snd (get_lat_lon_all svc_munnar
                 [(Some ''Paris'', None), (Some ''Munnar'', Some ''Idukki'')] empty_state))
     ''Munnar_Idukki'' = Some (Some 10, Some 77)"
    by (simp add: get_lat_lon_def svc_munnar_def empty_state_def cache_key_def
        search_query_def Let_def)
  from location_cache_invariant [OF h] h show ?thesis by simp
qed

section \<open>District context\<close>

lemma find_first_index:
  assumes "i < length xs" "P (xs ! i)" "\<forall>k<i. \<not> P (xs ! k)"
  shows "find P xs = Some (xs ! i)"
  using assms by (auto simp: find_Some_iff)

text \<open>
  C5.  When a text contains two (or more) district names, the district context is the
  one that stands earliest in \<open>KERALA_DISTRICTS\<close>: with \<open>i < j\<close> the positions of two
  names the text contains and no name before position \<open>i\<close> contained, the result is the
  name at position \<open>i\<close>, wherever the names stand in the text.
\<close>

theorem district_context_precedence:
  assumes "i < j" and "j < length KERALA_DISTRICTS"
    and "contains text (KERALA_DISTRICTS ! i)"
    and "contains text (KERALA_DISTRICTS ! j)"
    and "\<forall>k<i. \<not> contains text (KERALA_DISTRICTS ! k)"
  shows "snd (extract_location_from_text nlp set_iter text) = Some (KERALA_DISTRICTS ! i)"
proof -
  have i: "i < length KERALA_DISTRICTS"
    using assms(1,2) by simp
  have "KERALA_DISTRICTS ! j \<in> set KERALA_DISTRICTS"
    using assms(2) by (rule nth_mem)
  then have "KERALA_DISTRICTS ! j \<noteq> []"
    by (auto simp: KERALA_DISTRICTS_def)
  with assms(4) have ne: "text \<noteq> []"
    by (auto simp: contains_def)
  have "find (\<lambda>dist. contains text dist) KERALA_DISTRICTS = Some (KERALA_DISTRICTS ! i)"
    using find_first_index [of i KERALA_DISTRICTS "\<lambda>dist. contains text dist"] i assms(3,5)
    by simp
  with ne show ?thesis
    by (simp add: extract_location_from_text_def Let_def)
qed

text \<open>Idukki comes first in the text, Wayanad first in the list: the context is Wayanad.\<close>

theorem district_context_precedence_witness:
  "snd (extract_location_from_text nlp_none remdups ''Idukki and Wayanad'') = Some ''Wayanad''"
proof -
  have a: "contains ''Idukki and Wayanad'' (KERALA_DISTRICTS ! 0)"
    by code_simp
  have b: "contains ''Idukki and Wayanad'' (KERALA_DISTRICTS ! 1)"
    by code_simp
  have l: "(1::nat) < length KERALA_DISTRICTS"
    by (simp add: KERALA_DISTRICTS_def)
  have "snd (extract_location_from_text nlp_none remdups ''Idukki and Wayanad'')
        = Some (KERALA_DISTRICTS ! 0)"
    using district_context_precedence [of 0 1 "''Idukki and Wayanad''" nlp_none remdups] a b l
    by simp
  then show ?thesis by (simp add: KERALA_DISTRICTS_def)
qed

section \<open>Single-query mode: the cache key\<close>

text \<open>
  C7 as stated fails.  With an absent hint the key is not the place followed by \<open>_\<close>
  and the empty string: an entry stored under \<open>Munnar_\<close> is not found, and the service
  is called.
\<close>

theorem cache_key_absent_hint_counterexample:
  "cache st_munnar (spec_cache_key ''Munnar'' None) = Some (Some 10, Some 77)
   \<and> fst (get_lat_lon svc_none (Some ''Munnar'') None st_munnar) = (None, None)
   \<and> calls (snd (get_lat_lon svc_none (Some ''Munnar'') None st_munnar)) = [''Munnar, , Kerala'']"
  by (simp add: st_munnar_def spec_cache_key_def get_lat_lon_def cache_key_def search_query_def
      svc_none_def Let_def)

text \<open>
  C7, amended.  For a non-empty place, \<open>get_lat_lon\<close> consults the cache under the place,
  \<open>_\<close> and the district hint, where an absent hint is written as the text \<open>None\<close>.  On a
  hit the cached value is returned and the state is unchanged; on a miss exactly one
  call goes out, for the query made of the place, the hint (empty when absent) and the
  region.
\<close>

theorem get_lat_lon_key_and_call:
  assumes "name \<noteq> []"
  shows "case cache st (name @ ''_'' @ (case hint of None \<Rightarrow> ''None'' | Some d \<Rightarrow> d)) of
           Some v \<Rightarrow> get_lat_lon svc (Some name) hint st = (v, st)
         | None \<Rightarrow>
             calls (snd (get_lat_lon svc (Some name) hint st))
               = calls st @ [name @ '', '' @ (case hint of None \<Rightarrow> [] | Some d \<Rightarrow> d) @ '', Kerala'']"
  using assms
  by (simp add: get_lat_lon_def cache_key_def search_query_def Let_def
      split: option.splits reply.splits)

theorem get_lat_lon_key_and_call_witness:
  "calls (snd (get_lat_lon svc_none (Some ''Munnar'') None st_munnar)) = calls st_munnar @ [''Munnar, , Kerala'']"
  using get_lat_lon_key_and_call [where name = "''Munnar''" and st = st_munnar and hint = None and svc = svc_none]
  by (simp add: st_munnar_def)

section \<open>Ladder mode: queries and cache entries\<close>

lemma strip_nonblank:
  assumes "c \<in> set s" "\<not> is_space c"
  shows "strip s \<noteq> []"
proof -
  have "c \<in> set (dropWhile is_space s)"
    using assms by (induction s) auto
  then have "c \<in> set (rev (dropWhile is_space s))" by simp
  then have "dropWhile is_space (rev (dropWhile is_space s)) \<noteq> []"
    using assms(2) by (auto simp: dropWhile_eq_Nil_conv)
  then show ?thesis by (simp add: strip_def)
qed

lemma not_space_a: "\<not> is_space CHR ''a''"
  by (simp add: is_space_def)

lemma strip_region [simp]: "strip (s @ '', Kerala, India'') \<noteq> []"
  by (rule strip_nonblank [of "CHR ''a''"]) (simp_all add: not_space_a)

lemma generate_queries_shape:
  "\<exists>p r d. generate_queries rw =
     [p @ '', '' @ r @ '', '' @ d @ '', Kerala, India'',
      p @ '', '' @ d @ '', Kerala, India'',
      p @ '', Kerala, India'',
      r @ '', '' @ d @ '', Kerala, India'',
      d @ '', Kerala, India'']"
  by (simp add: generate_queries_def Let_def)

lemma tier_1_2_differ: "p @ '', '' @ r @ '', '' @ d @ t \<noteq> p @ '', '' @ d @ t"
proof
  assume "p @ '', '' @ r @ '', '' @ d @ t = p @ '', '' @ d @ t"
  then have "length (p @ '', '' @ r @ '', '' @ d @ t) = length (p @ '', '' @ d @ t)"
    by (rule arg_cong)
  then show False by simp
qed


lemma geocode_loop_short_circuit:
  assumes "q1 \<noteq> q2" "strip q1 \<noteq> []" "strip q2 \<noteq> []" "cache st q2 = Some (Some lat, lon)"
  shows "geocode_loop svc (q1 # q2 # rest) st = geocode_loop svc [q1, q2] st"
  using assms by (auto split: option.splits reply.splits)

lemma strip_row_abc:
  "strip ''a, b, c, Kerala, India'' \<noteq> []" "strip ''a, c, Kerala, India'' \<noteq> []"
  by code_simp+

lemma gq_row_abc: "generate_queries row_abc =
  [''a, b, c, Kerala, India'', ''a, c, Kerala, India'', ''a, Kerala, India'', ''b, c, Kerala, India'', ''c, Kerala, India'']"
  by code_simp

section \<open>Exceptions of the service\<close>





lemma RateLimiter_first_try:
  "func hist q 0 \<noteq> Raises \<Longrightarrow> RateLimiter func hist q = func hist q 0"
  by (cases "func hist q 0") (simp_all add: RateLimiter_def max_retries_def numeral_2_eq_2)






section \<open>Ladder mode: the second tier\<close>

text \<open>
  C2 as stated fails.  The first-tier query comes before the second: when it is not in
  the cache the service is called for it, and its coordinates are returned, not the
  cached ones of the second tier.
\<close>

theorem ladder_second_tier_counterexample:
  "cache st_tier2 (generate_queries row_abc ! 1) = Some (Some 10, Some 76)
   \<and> fst (geocode_row svc_other row_abc st_tier2) = Inr (Some 11, Some 77)
   \<and> calls (snd (geocode_row svc_other row_abc st_tier2)) = [''a, b, c, Kerala, India'']"
  by (simp add: geocode_row_def gq_row_abc strip_row_abc svc_other_def st_tier2_def)

text \<open>
  C2, amended.  When the second-tier query of a row is cached with present coordinates,
  \<open>geocode_row\<close> behaves as the loop over the first two tiers alone: the third, fourth
  and fifth tier are never attempted, and at most one call goes out, for the first-tier
  query.  When the first tier is cached as negative, the cached coordinates of the
  second tier are returned and nothing changes; when the first tier is not cached and
  the service has no result for it, they are returned after that one call.
\<close>

theorem ladder_short_circuit:
  assumes "cache st (generate_queries r ! 1) = Some (Some lat, lon)"
  shows "geocode_row geocode r st = geocode_loop geocode (take 2 (generate_queries r)) st
       \<and> (calls (snd (geocode_row geocode r st)) = calls st
          \<or> calls (snd (geocode_row geocode r st)) = calls st @ [generate_queries r ! 0])
       \<and> (cache st (generate_queries r ! 0) = Some (None, lon')
          \<longrightarrow> geocode_row geocode r st = (Inr (Some lat, lon), st))
       \<and> (cache st (generate_queries r ! 0) = None
            \<and> geocode (calls st) (generate_queries r ! 0) = NoResult
          \<longrightarrow> fst (geocode_row geocode r st) = Inr (Some lat, lon)
              \<and> calls (snd (geocode_row geocode r st)) = calls st @ [generate_queries r ! 0])"
proof -
  obtain p g d where gq: "generate_queries r =
     [p @ '', '' @ g @ '', '' @ d @ '', Kerala, India'',
      p @ '', '' @ d @ '', Kerala, India'',
      p @ '', Kerala, India'',
      g @ '', '' @ d @ '', Kerala, India'',
      d @ '', Kerala, India'']"
    using generate_queries_shape by blast
  define q1 where "q1 = p @ '', '' @ g @ '', '' @ d @ '', Kerala, India''"
  define q2 where "q2 = p @ '', '' @ d @ '', Kerala, India''"
  have ne: "q1 \<noteq> q2"
    unfolding q1_def q2_def by (rule tier_1_2_differ)
  have s1: "strip q1 \<noteq> []"
    using strip_region [of "p @ '', '' @ g @ '', '' @ d"] by (simp add: q1_def)
  have s2: "strip q2 \<noteq> []"
    using strip_region [of "p @ '', '' @ d"] by (simp add: q2_def)
  have c2: "cache st q2 = Some (Some lat, lon)"
    using assms by (simp add: gq q2_def)
  have gq': "generate_queries r = q1 # q2 # drop 2 (generate_queries r)"
    by (simp add: gq q1_def q2_def)
  have row: "geocode_row geocode r st = geocode_loop geocode [q1, q2] st"
    unfolding geocode_row_def
    using geocode_loop_short_circuit [OF ne s1 s2 c2, of geocode "drop 2 (generate_queries r)"] gq'
    by simp
  have t: "take 2 (generate_queries r) = [q1, q2]" and z: "generate_queries r ! 0 = q1"
    by (simp_all add: gq q1_def q2_def)
  show ?thesis
    unfolding row t z using ne s1 s2 c2
    by (cases "cache st q1"; cases "geocode (calls st) q1") (auto split: prod.splits)
qed

theorem ladder_short_circuit_witness:
  "geocode_row svc_other row_abc st_tier1_neg = (Inr (Some 10, Some 76), st_tier1_neg)"
proof -
  have t2: "cache st_tier1_neg (generate_queries row_abc ! 1) = Some (Some 10, Some 76)"
    by (simp add: gq_row_abc st_tier1_neg_def)
  have t1: "cache st_tier1_neg (generate_queries row_abc ! 0) = Some (None, None)"
    by (simp add: gq_row_abc st_tier1_neg_def)
  from ladder_short_circuit [OF t2, where lon' = None and geocode = svc_other] t1
  show ?thesis by blast
qed

section \<open>At most one call\<close>

lemma count_list_distinct: "distinct xs \<Longrightarrow> count_list xs x \<le> 1"
  by (induction xs) (auto simp: count_list_0_iff)

lemma geocode_loop_calls:
  assumes "distinct (calls st)" "set (calls st) \<subseteq> dom (cache st)"
  shows "distinct (calls (snd (geocode_loop geocode qs st)))
       \<and> (\<forall>c. fst (geocode_loop geocode qs st) = Inr c
            \<longrightarrow> set (calls (snd (geocode_loop geocode qs st)))
                \<subseteq> dom (cache (snd (geocode_loop geocode qs st))))"
  using assms
proof (induction qs arbitrary: st)
  case Nil
  then show ?case by simp
next
  case (Cons q qs)
  note 2 = this
  show ?case
  proof (cases "strip q = []")
    case True
    with 2 show ?thesis by simp
  next
    case nb: False
    show ?thesis
    proof (cases "cache st q")
      case (Some v)
      with nb 2 show ?thesis by (cases v) auto
    next
      case None
      then have fresh: "q \<notin> set (calls st)"
        using Cons.prems(2) by auto
      show ?thesis
      proof (cases "geocode (calls st) q")
        case NoResult
        let ?st = "st\<lparr>cache := (cache st)(q \<mapsto> (None, None)), calls := calls st @ [q]\<rparr>"
        have "distinct (calls ?st)" "set (calls ?st) \<subseteq> dom (cache ?st)"
          using fresh Cons.prems by auto
        from Cons.IH [OF this] nb None NoResult show ?thesis by simp
      next
        case (Found lat lon)
        with nb None fresh Cons.prems show ?thesis by auto
      next
        case Raises
        with nb None fresh Cons.prems show ?thesis by auto
      qed
    qed
  qed
qed

lemma geocode_rows_calls:
  assumes "distinct (calls st)" "set (calls st) \<subseteq> dom (cache st)"
  shows "distinct (calls (snd (geocode_rows geocode rows st)))"
  using assms
proof (induction rows arbitrary: st)
  case Nil
  then show ?case by simp
next
  case (Cons r rows)
  obtain res st' where g: "geocode_row geocode r st = (res, st')"
    by (cases "geocode_row geocode r st")
  have d: "distinct (calls st')"
    and s: "\<forall>c. res = Inr c \<longrightarrow> set (calls st') \<subseteq> dom (cache st')"
    using geocode_loop_calls [OF Cons.prems, of geocode "generate_queries r"] g
    by (simp_all add: geocode_row_def)
  show ?case
  proof (cases res)
    case (Inl e)
    with g d show ?thesis by simp
  next
    case (Inr c)
    with s have "set (calls st') \<subseteq> dom (cache st')" by simp
    from Cons.IH [OF d this] g Inr show ?thesis
      by (cases "geocode_rows geocode rows st'") (simp split: sum.splits)
  qed
qed

lemma get_lat_lon_keeps:
  "cache st k = Some v \<Longrightarrow> cache (snd (get_lat_lon geocode_service n h st)) k = Some v"
  by (auto simp: get_lat_lon_def Let_def split: option.splits reply.splits)

lemma get_lat_lon_all_keeps:
  "cache st k = Some v \<Longrightarrow> cache (snd (get_lat_lon_all geocode_service reqs st)) k = Some v"
proof (induction reqs arbitrary: st)
  case Nil
  then show ?case by simp
next
  case (Cons r reqs)
  obtain n h where r: "r = (n, h)" by (cases r)
  obtain c st' where g: "get_lat_lon geocode_service n h st = (c, st')"
    by (cases "get_lat_lon geocode_service n h st")
  have "cache st' k = Some v"
    using get_lat_lon_keeps [OF Cons.prems, of geocode_service n h] g by simp
  from Cons.IH [OF this] r g
  show ?case by (cases "get_lat_lon_all geocode_service reqs st'") simp
qed

lemma get_lat_lon_positive:
  assumes "fst (fst (get_lat_lon geocode_service (Some name) hint st)) \<noteq> None"
  shows "name \<noteq> []
       \<and> cache (snd (get_lat_lon geocode_service (Some name) hint st)) (cache_key name hint)
         = Some (fst (get_lat_lon geocode_service (Some name) hint st))"
  using assms
  by (auto simp: get_lat_lon_def Let_def split: option.splits reply.splits if_splits)

lemma get_lat_lon_all_positive:
  assumes "i < length reqs" "reqs ! i = (Some name, hint)"
    and "fst (fst (get_lat_lon_all geocode_service reqs st) ! i) \<noteq> None"
  shows "name \<noteq> []
       \<and> cache (snd (get_lat_lon_all geocode_service reqs st)) (cache_key name hint)
         = Some (fst (get_lat_lon_all geocode_service reqs st) ! i)"
  using assms
proof (induction reqs arbitrary: st i)
  case Nil
  then show ?case by simp
next
  case (Cons r reqs)
  obtain n h where r: "r = (n, h)" by (cases r)
  obtain c st' where g: "get_lat_lon geocode_service n h st = (c, st')"
    by (cases "get_lat_lon geocode_service n h st")
  obtain cs st'' where a: "get_lat_lon_all geocode_service reqs st' = (cs, st'')"
    by (cases "get_lat_lon_all geocode_service reqs st'")
  have all: "get_lat_lon_all geocode_service (r # reqs) st = (c # cs, st'')"
    using r g a by simp
  show ?case
  proof (cases i)
    case 0
    then have nh: "n = Some name" "h = hint"
      using Cons.prems(2) r by simp_all
    have "fst c \<noteq> None"
      using Cons.prems(3) all 0 by simp
    then have "name \<noteq> []" "cache st' (cache_key name hint) = Some c"
      using get_lat_lon_positive [of geocode_service name hint st] g nh by simp_all
    then show ?thesis
      using get_lat_lon_all_keeps [of st' "cache_key name hint" c geocode_service reqs] a all 0
      by simp
  next
    case (Suc j)
    then have "j < length reqs" "reqs ! j = (Some name, hint)"
      "fst (fst (get_lat_lon_all geocode_service reqs st') ! j) \<noteq> None"
      using Cons.prems all a by simp_all
    from Cons.IH [OF this] show ?thesis
      using all a Suc by simp
  qed
qed

text \<open>
  C1 as stated fails in single-query mode, which stores no negative result: a request
  without result is sent to the service again when it is repeated.
\<close>

theorem single_query_repeat_counterexample:
  "count_list
     (calls (snd (get_lat_lon_all svc_none [(Some ''Munnar'', None), (Some ''Munnar'', None)]
                    empty_state)))
     ''Munnar, , Kerala'' = 2"
  by (simp add: get_lat_lon_def svc_none_def empty_state_def cache_key_def search_query_def Let_def)

text \<open>
  C1, amended.  In ladder mode, over a whole run from the empty cache, each query
  string is sent to the service at most once.  In single-query mode, a request that was
  answered with present coordinates in a run from the empty cache is answered from the
  cache when it is repeated: same coordinates, state unchanged, no call.
\<close>

theorem geocode_calls_at_most_once:
  "count_list (calls (snd (geocode_rows geocode rows empty_state))) q \<le> 1
   \<and> (i < length reqs \<and> reqs ! i = (Some name, hint)
        \<and> fst (fst (get_lat_lon_all geocode_service reqs empty_state) ! i) \<noteq> None
      \<longrightarrow> get_lat_lon geocode_service (Some name) hint
            (snd (get_lat_lon_all geocode_service reqs empty_state))
          = (fst (get_lat_lon_all geocode_service reqs empty_state) ! i,
             snd (get_lat_lon_all geocode_service reqs empty_state)))"
proof -
  have "distinct (calls (snd (geocode_rows geocode rows empty_state)))"
    by (rule geocode_rows_calls) (simp_all add: empty_state_def)
  then have ladder: "count_list (calls (snd (geocode_rows geocode rows empty_state))) q \<le> 1"
    by (rule count_list_distinct)
  have single: "get_lat_lon geocode_service (Some name) hint
            (snd (get_lat_lon_all geocode_service reqs empty_state))
          = (fst (get_lat_lon_all geocode_service reqs empty_state) ! i,
             snd (get_lat_lon_all geocode_service reqs empty_state))"
    if "i < length reqs" "reqs ! i = (Some name, hint)"
      "fst (fst (get_lat_lon_all geocode_service reqs empty_state) ! i) \<noteq> None"
    using get_lat_lon_all_positive [OF that]
    by (simp add: get_lat_lon_def Let_def)
  from ladder single show ?thesis by blast
qed

theorem geocode_calls_at_most_once_witness:
  "count_list (calls (snd (geocode_rows svc_none [row_abc, row_abc] empty_state)))
     ''a, b, c, Kerala, India'' \<le> 1
   \<and> get_lat_lon svc_munnar (Some ''Munnar'') (Some ''Idukki'')
       (snd (get_lat_lon_all svc_munnar
              [(Some ''Munnar'', Some ''Idukki''), (Some ''Paris'', None)] empty_state))
     = ((Some 10, Some 77),
        snd (get_lat_lon_all svc_munnar
              [(Some ''Munnar'', Some ''Idukki''), (Some ''Paris'', None)] empty_state))"
proof -
  have r: "fst (get_lat_lon_all svc_munnar
              [(Some ''Munnar'', Some ''Idukki''), (Some ''Paris'', None)] empty_state) ! 0
           = (Some 10, Some 77)"
    by (simp add: get_lat_lon_def svc_munnar_def empty_state_def cache_key_def
        search_query_def Let_def)
  show ?thesis
    using r geocode_calls_at_most_once [where geocode = svc_none and rows = "[row_abc, row_abc]"
        and q = "''a, b, c, Kerala, India''" and geocode_service = svc_munnar
        and reqs = "[(Some ''Munnar'', Some ''Idukki''), (Some ''Paris'', None)]"
        and i = 0 and name = "''Munnar''" and hint = "Some ''Idukki''"]
    by simp
qed

section \<open>The normalizer\<close>

lemma lower_char_idem: "lower_char (lower_char c) = lower_char c"
  by (simp add: lower_char_def Let_def)

lemma of_char_lower_char:
  "(of_char (lower_char c) :: nat) =
     (if (65 \<le> (of_char c :: nat) \<and> (of_char c :: nat) \<le> 90)
         \<or> (192 \<le> (of_char c :: nat) \<and> (of_char c :: nat) \<le> 222 \<and> (of_char c :: nat) \<noteq> 215)
      then of_char c + 32 else of_char c)"
  by (simp add: lower_char_def Let_def)

lemma lower_char_newline: "lower_char c = CHR 0x0A \<Longrightarrow> c = CHR 0x0A"
proof -
  assume "lower_char c = CHR 0x0A"
  then have "(of_char (lower_char c) :: nat) = of_char (CHR 0x0A)" by simp
  then have "(of_char c :: nat) = of_char (CHR 0x0A)"
    by (simp add: of_char_lower_char split: if_splits)
  then show ?thesis by (simp only: of_char_eq_iff)
qed

lemma space_is_space: "is_space CHR '' ''"
  by (simp add: is_space_def)

lemma lower_char_space: "lower_char CHR '' '' = CHR '' ''"
  by (simp add: lower_char_def)

lemma rev_dropWhile_prefix: "rev (dropWhile P (rev v)) @ rev (takeWhile P (rev v)) = v"
proof -
  have "rev (takeWhile P (rev v) @ dropWhile P (rev v)) = v" by simp
  then show ?thesis by (simp only: rev_append)
qed

lemma set_strip: "set (strip v) \<subseteq> set v"
proof
  fix c assume "c \<in> set (strip v)"
  then have "c \<in> set (dropWhile is_space (rev (dropWhile is_space v)))"
    by (simp add: strip_def)
  then have "c \<in> set (rev (dropWhile is_space v))"
    by (rule set_dropWhileD)
  then have "c \<in> set (dropWhile is_space v)"
    by simp
  then show "c \<in> set v"
    by (rule set_dropWhileD)
qed

lemma strip_fixed:
  assumes "dropWhile is_space v = v" "dropWhile is_space (rev v) = rev v"
  shows "strip v = v"
  using assms by (simp add: strip_def)

lemma strip_ends:
  "dropWhile is_space (strip v) = strip v \<and> dropWhile is_space (rev (strip v)) = rev (strip v)"
proof -
  define a where "a = dropWhile is_space v"
  define b where "b = dropWhile is_space (rev a)"
  have s: "strip v = rev b" by (simp add: strip_def a_def b_def)
  have a: "a = rev b @ rev (takeWhile is_space (rev a))"
    unfolding b_def by (simp only: rev_dropWhile_prefix)
  have "dropWhile is_space (rev b) = rev b"
  proof (cases "rev b = []")
    case True
    then show ?thesis by simp
  next
    case False
    then have "a \<noteq> []" using a by auto
    then have "\<not> is_space (hd a)"
      unfolding a_def by (rule hd_dropWhile)
    moreover have "hd a = hd (rev b)"
      using a False by (metis hd_append2)
    ultimately show ?thesis
      using False by (cases "rev b") auto
  qed
  moreover have "dropWhile is_space b = b"
    by (simp add: b_def)
  ultimately show ?thesis by (simp add: s)
qed

lemma close_paren_set: "close_paren cs = Some r \<Longrightarrow> set r \<subseteq> set cs"
  by (induction cs) (auto split: if_splits)

lemma close_paren_None: "CHR '')'' \<notin> set cs \<Longrightarrow> close_paren cs = None"
  by (induction cs) auto

lemma close_paren_fails:
  "close_paren cs = None \<Longrightarrow> CHR 0x0A \<notin> set cs \<Longrightarrow> CHR '')'' \<notin> set cs"
  by (induction cs) (auto split: if_splits)

lemma set_remove_brackets: "set (remove_brackets s) \<subseteq> set s"
proof (induction s rule: remove_brackets.induct)
  case 1
  then show ?case by simp
next
  case (2 c cs)
  show ?case
  proof (cases "c = CHR ''(''")
    case False
    with 2 show ?thesis by auto
  next
    case True
    show ?thesis
    proof (cases "close_paren cs")
      case None
      with 2 True show ?thesis by auto
    next
      case (Some r)
      then have "set r \<subseteq> set cs" by (rule close_paren_set)
      moreover have "set (remove_brackets r) \<subseteq> set r"
        using "2.IH" True Some by simp
      ultimately show ?thesis
        using True Some by auto
    qed
  qed
qed

lemma no_pair_remove_brackets:
  "CHR 0x0A \<notin> set s \<Longrightarrow> no_pair (remove_brackets s)"
proof (induction s rule: remove_brackets.induct)
  case 1
  then show ?case by simp
next
  case (2 c cs)
  show ?case
  proof (cases "c = CHR ''(''")
    case False
    with 2 show ?thesis by simp
  next
    case True
    show ?thesis
    proof (cases "close_paren cs")
      case None
      then have "CHR '')'' \<notin> set cs"
        using "2.prems" by (auto dest: close_paren_fails)
      then have "CHR '')'' \<notin> set (remove_brackets cs)"
        using set_remove_brackets by blast
      with 2 True None show ?thesis by simp
    next
      case (Some r)
      then have "CHR 0x0A \<notin> set r"
        using "2.prems" close_paren_set by fastforce
      with 2 True Some show ?thesis by simp
    qed
  qed
qed

lemma remove_brackets_fixed: "no_pair t \<Longrightarrow> remove_brackets t = t"
  by (induction t) (auto simp: close_paren_None)

lemma no_pair_dropWhile: "no_pair t \<Longrightarrow> no_pair (dropWhile P t)"
  by (induction t) auto

lemma no_pair_prefix: "no_pair (xs @ ys) \<Longrightarrow> no_pair xs"
  by (induction xs) auto

lemma no_pair_split_hybrids: "no_pair t \<Longrightarrow> no_pair (split_hybrids t)"
  by (induction t) (auto simp: split_hybrids_def)

lemma set_collapse_ws: "set (collapse_ws t) \<subseteq> insert CHR '' '' (set t)"
proof (induction t rule: collapse_ws.induct)
  case 1
  then show ?case by simp
next
  case (2 c cs)
  show ?case
  proof (cases "is_space c")
    case True
    have "set (dropWhile is_space cs) \<subseteq> set cs"
      by (auto dest: set_dropWhileD)
    with 2 True show ?thesis by auto
  next
    case False
    with 2 show ?thesis by auto
  qed
qed

lemma no_pair_collapse_ws: "no_pair t \<Longrightarrow> no_pair (collapse_ws t)"
proof (induction t rule: collapse_ws.induct)
  case 1
  then show ?case by simp
next
  case (2 c cs)
  show ?case
  proof (cases "is_space c")
    case True
    with 2 show ?thesis by (simp add: no_pair_dropWhile)
  next
    case False
    have "CHR '')'' \<notin> set cs \<Longrightarrow> CHR '')'' \<notin> set (collapse_ws cs)"
      using set_collapse_ws [of cs] by auto
    with 2 False show ?thesis by auto
  qed
qed

lemma no_pair_strip: "no_pair t \<Longrightarrow> no_pair (strip t)"
proof -
  assume "no_pair t"
  then have "no_pair (dropWhile is_space t)" by (rule no_pair_dropWhile)
  then have "no_pair (rev (dropWhile is_space (rev (dropWhile is_space t)))
      @ rev (takeWhile is_space (rev (dropWhile is_space t))))"
    by (simp only: rev_dropWhile_prefix)
  then show ?thesis
    unfolding strip_def by (rule no_pair_prefix)
qed

lemma collapse_ws_fixed: "collapsed t \<Longrightarrow> collapse_ws t = t"
  by (induction t) auto

lemma collapse_ws_head:
  assumes "dropWhile is_space v = v"
  shows "dropWhile is_space (collapse_ws v) = collapse_ws v"
proof (cases v)
  case Nil
  then show ?thesis by simp
next
  case (Cons c cs)
  with assms have "\<not> is_space c"
    by (simp only: dropWhile_eq_self_iff) simp
  with Cons show ?thesis by simp
qed

lemma collapsed_collapse_ws: "collapsed (collapse_ws t)"
proof (induction t rule: collapse_ws.induct)
  case 1
  then show ?case by simp
next
  case (2 c cs)
  then show ?case
    by (simp add: collapse_ws_head)
qed

lemma collapsed_dropWhile: "collapsed t \<Longrightarrow> collapsed (dropWhile P t)"
  by (induction t) simp_all

lemma dropWhile_prefix_fixed:
  assumes "dropWhile P (cs @ ys) = cs @ ys"
  shows "dropWhile P cs = cs"
proof (cases cs)
  case Nil
  then show ?thesis by simp
next
  case (Cons c cs')
  with assms have "\<not> P c"
    by (simp only: dropWhile_eq_self_iff) simp
  with Cons show ?thesis by simp
qed

lemma collapsed_prefix: "collapsed (xs @ ys) \<Longrightarrow> collapsed xs"
proof (induction xs)
  case Nil
  then show ?case by simp
next
  case (Cons c cs)
  then have "is_space c \<longrightarrow> c = CHR '' '' \<and> dropWhile is_space (cs @ ys) = cs @ ys"
    and "collapsed (cs @ ys)"
    by simp_all
  with Cons.IH show ?case
    using dropWhile_prefix_fixed [of is_space cs ys] by simp
qed

lemma collapsed_strip: "collapsed t \<Longrightarrow> collapsed (strip t)"
proof -
  assume "collapsed t"
  then have "collapsed (dropWhile is_space t)" by (rule collapsed_dropWhile)
  then have "collapsed (rev (dropWhile is_space (rev (dropWhile is_space t)))
      @ rev (takeWhile is_space (rev (dropWhile is_space t))))"
    by (simp only: rev_dropWhile_prefix)
  then show ?thesis
    unfolding strip_def by (rule collapsed_prefix)
qed

lemma set_split_hybrids:
  "c \<in> set (split_hybrids u) \<Longrightarrow> c \<noteq> CHR ''-'' \<and> c \<noteq> CHR ''/'' \<and> (c = CHR '' '' \<or> c \<in> set u)"
  by (auto simp: split_hybrids_def split: if_splits)

lemma normalize_str_chars:
  assumes "c \<in> set (normalize_str s)"
  shows "lower_char c = c \<and> c \<noteq> CHR ''-'' \<and> c \<noteq> CHR ''/''"
proof -
  have "c \<in> set (collapse_ws (split_hybrids (remove_brackets (lower s))))"
    using assms set_strip unfolding normalize_str_def by blast
  then have "c = CHR '' '' \<or> c \<in> set (split_hybrids (remove_brackets (lower s)))"
    using set_collapse_ws by blast
  then have 1: "c \<noteq> CHR ''-'' \<and> c \<noteq> CHR ''/''"
    and 2: "c = CHR '' '' \<or> c \<in> set (remove_brackets (lower s))"
    using set_split_hybrids [of c "remove_brackets (lower s)"] by auto
  from 2 have "c = CHR '' '' \<or> c \<in> set (lower s)"
    using set_remove_brackets by blast
  then have "lower_char c = c"
    by (auto simp: lower_def lower_char_space lower_char_idem)
  with 1 show ?thesis by simp
qed

lemma newline_lower: "CHR 0x0A \<notin> set s \<Longrightarrow> CHR 0x0A \<notin> set (lower s)"
proof
  assume a: "CHR 0x0A \<notin> set s" and "CHR 0x0A \<in> set (lower s)"
  then obtain c where "c \<in> set s" "lower_char c = CHR 0x0A"
    by (auto simp: lower_def)
  then have "CHR 0x0A \<in> set s"
    using lower_char_newline [of c] by simp
  with a show False by simp
qed

lemma normalize_str_no_pair:
  assumes "no_pair (remove_brackets (lower s))"
  shows "no_pair (normalize_str s)"
  unfolding normalize_str_def
  by (intro no_pair_strip no_pair_collapse_ws no_pair_split_hybrids assms)

lemma normalize_str_collapsed: "collapsed (normalize_str s)"
  unfolding normalize_str_def by (intro collapsed_strip collapsed_collapse_ws)

lemma normalize_str_fixed:
  assumes "\<forall>c\<in>set t. lower_char c = c \<and> c \<noteq> CHR ''-'' \<and> c \<noteq> CHR ''/''"
    and "no_pair t" and "collapsed t"
    and "dropWhile is_space t = t" and "dropWhile is_space (rev t) = rev t"
  shows "normalize_str t = t"
proof -
  have "lower t = t"
    using assms(1) by (simp add: lower_def map_idI)
  moreover have "remove_brackets t = t"
    using assms(2) by (rule remove_brackets_fixed)
  moreover have "split_hybrids t = t"
    using assms(1) by (simp add: split_hybrids_def map_idI)
  moreover have "collapse_ws t = t"
    using assms(3) by (rule collapse_ws_fixed)
  moreover have "strip t = t"
    using assms(4,5) by (rule strip_fixed)
  ultimately show ?thesis
    by (simp add: normalize_str_def)
qed

text \<open>
  Whenever the bracket step leaves no opening bracket with a closing bracket after it,
  a second pass of the normalizer changes nothing.  That is so for every string without
  a line feed.
\<close>

lemma normalize_str_idem:
  assumes "no_pair (remove_brackets (lower s))"
  shows "normalize_str (normalize_str s) = normalize_str s"
proof (rule normalize_str_fixed)
  show "\<forall>c\<in>set (normalize_str s). lower_char c = c \<and> c \<noteq> CHR ''-'' \<and> c \<noteq> CHR ''/''"
    using normalize_str_chars by blast
  show "no_pair (normalize_str s)"
    using assms by (rule normalize_str_no_pair)
  show "collapsed (normalize_str s)"
    by (rule normalize_str_collapsed)
  show "dropWhile is_space (normalize_str s) = normalize_str s"
    "dropWhile is_space (rev (normalize_str s)) = rev (normalize_str s)"
    using strip_ends [of "collapse_ws (split_hybrids (remove_brackets (lower s)))"]
    by (simp_all add: normalize_str_def)
qed

lemma normalize_str_idem_one_line:
  "CHR 0x0A \<notin> set s \<Longrightarrow> normalize_str (normalize_str s) = normalize_str s"
  by (intro normalize_str_idem no_pair_remove_brackets newline_lower)

text \<open>
  C6.  The claim is that the normalizer is idempotent on every string and gives the
  empty string for an absent input.  The second part holds.  The first does not hold of
  the code: the step commented \<open>remove brackets\<close> leaves a bracket pair that has a line
  feed inside, the whitespace step turns the line feed into a space, and a second pass
  then removes the pair.  Evaluated here on a cell with a bracketed aside broken over
  two lines, and on the shortest such string.
\<close>

theorem normalize_line_feed_in_brackets:
  "remove_brackets (lower (''Munnar (old'' @ [CHR 0x0A] @ ''town)''))
     = ''munnar (old'' @ [CHR 0x0A] @ ''town)''
   \<and> normalize_text (Some (''Munnar (old'' @ [CHR 0x0A] @ ''town)'')) = ''munnar (old town)''
   \<and> normalize_text (Some ''munnar (old town)'') = ''munnar''
   \<and> normalize_text (Some [CHR ''('', CHR 0x0A, CHR '')'']) = ''( )''
   \<and> normalize_text (Some ''( )'') = []
   \<and> normalize_text None = []"
  by code_simp

section \<open>Species tagging\<close>

lemma lower_keywords:
  "lower ''elephant'' = ''elephant''" "lower ''tiger'' = ''tiger''" "lower ''boar'' = ''boar''"
  "lower ''gaur'' = ''gaur''" "lower ''bison'' = ''bison''" "lower ''leopard'' = ''leopard''"
  by code_simp+

lemma identify_species_scan: "identify_species text = species_scan text"
  by (simp add: identify_species_def species_scan_def species_keywords_def contains_nocase_def
      contains_def lower_keywords Let_def)

text \<open>
  C8.  One pass of the loop body either leaves the list of records as it is or appends
  one record.  When \<open>get_lat_lon\<close> gives no latitude, nothing is appended, so no species
  is ever computed for such an event.  An appended record carries the coordinates that
  \<open>get_lat_lon\<close> returned and the species found by the scan of the event text: the
  first entry of the ordered keyword table (elephant, tiger, boar, gaur or bison,
  leopard) with a keyword in the lower-cased text, and \<open>Unknown\<close> when there is none.
\<close>

theorem species_tagging:
  assumes "process_event nlp set_iter geocode_service h3 event (final_data, st) = Inr (final_data', st')"
    and "extract_location_from_text nlp set_iter (ev_text event) = (loc, district)"
  shows "(fst (fst (get_lat_lon geocode_service loc district st)) = None \<longrightarrow> final_data' = final_data)
       \<and> (final_data' = final_data
          \<or> (\<exists>r. final_data' = final_data @ [r] \<and> species r = species_scan (ev_text event)
                 \<and> (Some (latitude r), Some (longitude r))
                     = fst (get_lat_lon geocode_service loc district st)))"
  using assms
  by (auto simp: process_event_def identify_species_scan split: option.splits if_splits prod.splits)

lemma demo_extract:
  "extract_location_from_text nlp_demo remdups (ev_text event_demo) = (Some ''Mananthavady'', Some ''Wayanad'')"
  by code_simp

lemma demo_species: "species_scan (ev_text event_demo) = ''Elephant''"
  by code_simp

theorem species_tagging_witness:
  "process_event nlp_demo remdups svc_demo h3_demo event_demo ([], empty_state)
     = Inr ([rec_demo], st_demo)
   \<and> species rec_demo = species_scan (ev_text event_demo)
   \<and> species_scan (ev_text event_demo) = ''Elephant''"
proof -
  have t: "take 100 (ev_text event_demo) = ev_text event_demo"
    by (simp add: event_demo_def)
  have h: "process_event nlp_demo remdups svc_demo h3_demo event_demo ([], empty_state)
     = Inr ([rec_demo], st_demo)"
    by (simp add: process_event_def demo_extract identify_species_scan demo_species t
        get_lat_lon_def cache_key_def search_query_def svc_demo_def h3_demo_def empty_state_def
        rec_demo_def st_demo_def Let_def)
      (simp add: event_demo_def)
  from species_tagging [OF h demo_extract] have "species rec_demo = species_scan (ev_text event_demo)"
    by auto
  with h demo_species show ?thesis by simp
qed

section \<open>Sorting\<close>

text \<open>
  C9.  For a non-empty list of records, sorting by the date strings does not fail: the
  saved list is a rearrangement of the records with the dates in descending order,
  also when \<open>Unknown\<close> stands among ISO dates.  Whenever the sort does fail, the saved
  list is the list of records in insertion order.
\<close>

theorem save_sorted_or_insertion_order:
  assumes "final_data \<noteq> []"
  shows "(\<exists>df. save sort_values_desc final_data = Some df
            \<and> sorted (rev (map event_date df)) \<and> mset df = mset final_data)
       \<and> (sort_values final_data = Inl e \<longrightarrow> save sort_values final_data = Some final_data)"
  using assms by (simp add: save_def sort_values_desc_def rev_map)

lemma dated_date [simp]: "event_date (dated d) = d"
  by (simp add: dated_def)

lemma date_order:
  "''2024-05-01'' \<le> ''Unknown''" "''2023-11-20'' \<le> ''2024-05-01''" "''2024-05-01'' \<le> ''2024-06-15''"
  "''2024-06-15'' \<le> ''Unknown''" "''2023-11-20'' \<le> ''Unknown''" "''2023-11-20'' \<le> ''2024-06-15''"
  "\<not> ''Unknown'' \<le> ''2024-05-01''" "\<not> ''2024-05-01'' \<le> ''2023-11-20''" "\<not> ''2024-06-15'' \<le> ''2024-05-01''"
  "\<not> ''Unknown'' \<le> ''2024-06-15''" "\<not> ''Unknown'' \<le> ''2023-11-20''" "\<not> ''2024-06-15'' \<le> ''2023-11-20''"
  by simp_all

lemma mixed_sorted:
  "sort_values_desc mixed
   = Inr [dated ''Unknown'', dated ''2024-06-15'', dated ''2024-05-01'', dated ''2023-11-20'']"
  by (simp add: sort_values_desc_def mixed_def date_order)

theorem save_sorted_or_insertion_order_witness:
  "save sort_values_desc mixed
     = Some [dated ''Unknown'', dated ''2024-06-15'', dated ''2024-05-01'', dated ''2023-11-20'']
   \<and> sorted (rev (map event_date
         [dated ''Unknown'', dated ''2024-06-15'', dated ''2024-05-01'', dated ''2023-11-20'']))
   \<and> save sort_fails mixed = Some mixed"
proof -
  have ne: "mixed \<noteq> []"
    by (simp add: mixed_def)
  have f: "sort_fails mixed = Inl TypeError"
    by (simp add: sort_fails_def)
  have s: "save sort_values_desc mixed
     = Some [dated ''Unknown'', dated ''2024-06-15'', dated ''2024-05-01'', dated ''2023-11-20'']"
    using ne by (simp add: save_def mixed_sorted)
  from save_sorted_or_insertion_order [OF ne, where sort_values = sort_fails and e = TypeError] f s
  show ?thesis by auto
qed

end
